theory Spec2Isabelle
  imports Main "HOL-Library.AList"
begin

section \<open>Identifiers and Python exceptions\<close>

text \<open>
  Discord identifiers (users, roles, channels) are Python integers. The dictionaries
  \<^verbatim>\<open>premium_slots\<close>, \<^verbatim>\<open>participants\<close> and \<^verbatim>\<open>invite_data["members"]\<close> are always
  keyed by \<^verbatim>\<open>str(id)\<close>, in memory and in their JSON files; since \<^verbatim>\<open>str\<close> is injective
  on integers, the model keys those dictionaries by the integer itself.
\<close>

type_synonym user_id = int
type_synonym role_id = int
type_synonym giveaway_id = string

datatype py_error = KeyError | ValueError | UnboundLocalError | PlatformError

section \<open>Premium slot entitlement (\<^verbatim>\<open>calculate_user_slots\<close>, \<^verbatim>\<open>update_user_slots\<close>)\<close>

text \<open>
  \<^verbatim>\<open>BOT_CONFIG["slot_roles"]\<close> maps a role id to \<^verbatim>\<open>{"name": ..., "slots": n}\<close>,
  \<^verbatim>\<open>BOT_CONFIG["auto_slot_roles"]\<close> maps a role id to a slot count. Both are read
  with \<^verbatim>\<open>BOT_CONFIG.get(key, {})\<close>, so an absent table counts as empty. The keys of
  these tables are not of one type: the literal in the module and the configuration form
  store integer role ids, while a table loaded from \<^verbatim>\<open>bot_config.json\<close> has string
  keys, as every JSON object has. A table is an association list in insertion order.
\<close>

datatype dict_key = IntKey int | StrKey string

record slot_role =
  role_name :: string
  slots :: int

record bot_config =
  slot_roles :: "(dict_key \<times> slot_role) list option"
  auto_slot_roles :: "(dict_key \<times> int) list option"

text \<open>\<^verbatim>\<open>BOT_CONFIG.get(key, {})\<close>\<close>

definition config_get :: "(dict_key \<times> 'v) list option \<Rightarrow> (dict_key \<times> 'v) list" where
  "config_get t = (case t of None \<Rightarrow> [] | Some items \<Rightarrow> items)"

text \<open>
  The first loop of \<^verbatim>\<open>calculate_user_slots\<close>: the legacy slot roles.
  \<^verbatim>\<open>role.id in table\<close> looks the integer id up.
\<close>

fun slot_roles_loop :: "(dict_key \<times> slot_role) list \<Rightarrow> role_id list \<Rightarrow> int \<Rightarrow> int" where
  "slot_roles_loop tbl [] tot = tot"
| "slot_roles_loop tbl (r # rs) tot =
     slot_roles_loop tbl rs
       (case map_of tbl (IntKey r) of Some sr \<Rightarrow> tot + slots sr | None \<Rightarrow> tot)"

text \<open>The second loop: the configurable automatic slot roles.\<close>

fun auto_slot_roles_loop :: "(dict_key \<times> int) list \<Rightarrow> role_id list \<Rightarrow> int \<Rightarrow> int" where
  "auto_slot_roles_loop tbl [] tot = tot"
| "auto_slot_roles_loop tbl (r # rs) tot =
     auto_slot_roles_loop tbl rs
       (case map_of tbl (IntKey r) of Some n \<Rightarrow> tot + n | None \<Rightarrow> tot)"

definition calculate_user_slots :: "bot_config \<Rightarrow> role_id list \<Rightarrow> int" where
  "calculate_user_slots cfg member_roles =
     auto_slot_roles_loop (config_get (auto_slot_roles cfg)) member_roles
       (slot_roles_loop (config_get (slot_roles cfg)) member_roles 0)"

text \<open>
  An entry of \<^verbatim>\<open>premium_slots\<close>. The key \<^verbatim>\<open>manual_slots\<close> is read with
  \<^verbatim>\<open>.get("manual_slots", 0)\<close>: entries created by the auction code lack it.
\<close>

record slot_entry =
  total_slots :: int
  used_slots :: int
  manual_slots :: "int option"

definition new_slot_entry :: slot_entry where
  "new_slot_entry = \<lparr>total_slots = 0, used_slots = 0, manual_slots = Some 0\<rparr>"

definition manual_of :: "slot_entry \<Rightarrow> int" where
  "manual_of e = (case manual_slots e of None \<Rightarrow> 0 | Some m \<Rightarrow> m)"

definition update_user_slots ::
  "bot_config \<Rightarrow> user_id \<Rightarrow> role_id list \<Rightarrow> (user_id \<rightharpoonup> slot_entry) \<Rightarrow> (user_id \<rightharpoonup> slot_entry)" where
  "update_user_slots cfg uid member_roles premium_slots =
     (let calculated_slots = calculate_user_slots cfg member_roles;
          e0 = (case premium_slots uid of None \<Rightarrow> new_slot_entry | Some e \<Rightarrow> e);
          e1 = e0\<lparr>total_slots := calculated_slots + manual_of e0\<rparr>;
          e2 = (if used_slots e1 > total_slots e1
                then e1\<lparr>used_slots := total_slots e1\<rparr> else e1)
      in premium_slots(uid \<mapsto> e2))"

text \<open>
  The entry \<^verbatim>\<open>update_user_slots\<close> starts from, and tables whose slot counts are
  not negative.
\<close>

definition entry_before :: "(user_id \<rightharpoonup> slot_entry) \<Rightarrow> user_id \<Rightarrow> slot_entry" where
  "entry_before premium_slots uid =
     (case premium_slots uid of None \<Rightarrow> new_slot_entry | Some e \<Rightarrow> e)"

definition nonneg_tables :: "bot_config \<Rightarrow> bool" where
  "nonneg_tables cfg \<longleftrightarrow>
     list_all (\<lambda>(k, sr). 0 \<le> slots sr) (config_get (slot_roles cfg)) \<and>
     list_all (\<lambda>(k, n). 0 \<le> n) (config_get (auto_slot_roles cfg))"

subsection \<open>Saving and reloading the configuration\<close>

text \<open>
  \<^verbatim>\<open>save_json("bot_config.json", BOT_CONFIG)\<close> is \<^verbatim>\<open>json.dump\<close>, which writes an
  integer key as its decimal string; at the next start
  \<^verbatim>\<open>BOT_CONFIG.update(load_json("bot_config.json"))\<close> replaces both tables by the
  loaded ones, and nothing converts the keys back. \<open>py_str\<close> is \<^verbatim>\<open>str\<close> on integers.
  Loading an object stores its pairs in order, a repeated key keeping its first place
  and taking the later value.
\<close>

definition digit_char :: "nat \<Rightarrow> char" where
  "digit_char n = ''0123456789'' ! n"

function str_nat :: "nat \<Rightarrow> string" where
  "str_nat n = (if n < 10 then [digit_char n] else str_nat (n div 10) @ [digit_char (n mod 10)])"
  by pat_completeness auto
termination
  by (relation "measure (\<lambda>n. n)") auto

definition py_str :: "int \<Rightarrow> string" where
  "py_str i = (if i < 0 then CHR ''-'' # str_nat (nat (- i)) else str_nat (nat i))"

definition json_key :: "dict_key \<Rightarrow> dict_key" where
  "json_key k = (case k of IntKey i \<Rightarrow> StrKey (py_str i) | StrKey s \<Rightarrow> StrKey s)"

definition json_roundtrip :: "(dict_key \<times> 'v) list \<Rightarrow> (dict_key \<times> 'v) list" where
  "json_roundtrip items = fold (\<lambda>(k, v) loaded. AList.update (json_key k) v loaded) items []"

definition reload_config :: "bot_config \<Rightarrow> bot_config" where
  "reload_config cfg =
     \<lparr>slot_roles = map_option json_roundtrip (slot_roles cfg),
      auto_slot_roles = map_option json_roundtrip (auto_slot_roles cfg)\<rparr>"

subsection \<open>A concrete configuration\<close>

text \<open>
  Role 1 grants 2 legacy slots and 3 automatic slots, role 2 grants 1 automatic slot;
  user 7 has used 8 of 9 slots and has 1 manual slot.
\<close>

definition example_config :: bot_config where
  "example_config =
     \<lparr>slot_roles = Some [(IntKey 1, \<lparr>role_name = ''2 boosts'', slots = 2\<rparr>)],
      auto_slot_roles = Some [(IntKey 1, 3), (IntKey 2, 1)]\<rparr>"

definition example_premium_slots :: "user_id \<rightharpoonup> slot_entry" where
  "example_premium_slots = [7 \<mapsto> \<lparr>total_slots = 9, used_slots = 8, manual_slots = Some 1\<rparr>]"

section \<open>Giveaways (\<^verbatim>\<open>join_giveaway\<close>, \<^verbatim>\<open>check_giveaways\<close>, \<^verbatim>\<open>end_giveaway\<close>)\<close>

text \<open>
  A giveaway is a JSON object of \<^verbatim>\<open>giveaways_data\<close>. Its \<^verbatim>\<open>status\<close> is one of the
  strings "creating", "active" and "ended". \<^verbatim>\<open>participants\<close> is a dictionary from the
  user id to \<^verbatim>\<open>{"entries": n}\<close>; Python dictionaries keep insertion order, which the
  draw depends on, so it is an association list here. \<^verbatim>\<open>winners\<close> is the configured
  number of winners, \<^verbatim>\<open>winners_list\<close> the key the draw writes (absent before).
  \<^verbatim>\<open>extra_entry_roles\<close> is a list of \<^verbatim>\<open>{"role_id": r, "entries": n}\<close>.
\<close>

datatype gstatus = Creating | Active | Ended

record giveaway =
  status :: gstatus
  channel_id :: int
  end_time :: int
  winners :: int
  participants :: "(user_id \<times> int) list"
  required_roles :: "role_id list"
  required_level :: "int option"
  bypass_roles :: "role_id list"
  extra_entry_roles :: "(role_id \<times> int) list"
  winners_list :: "user_id list option"

subsection \<open>Joining\<close>

text \<open>
  What the join button answers: "This giveaway is no longer active.", "You don't have
  the required roles ...", "You need to be Level ...", or "You've joined the giveaway
  with n entries". \<^verbatim>\<open>JoinError\<close> stands for an exception escaping the handler.
\<close>

datatype join_result = NotActive | MissingRequiredRole | LevelTooLow | Joined int | JoinError py_error

text \<open>\<^verbatim>\<open>any(role_id in user_role_ids for role_id in rs)\<close>\<close>

definition has_any_role :: "role_id list \<Rightarrow> role_id list \<Rightarrow> bool" where
  "has_any_role user_role_ids rs = list_ex (\<lambda>role_id. role_id \<in> set user_role_ids) rs"

definition required_level_of :: "giveaway \<Rightarrow> int" where
  "required_level_of g = (case required_level g of None \<Rightarrow> 0 | Some l \<Rightarrow> l)"

text \<open>
  The level check. The user's level is \<^verbatim>\<open>calculate_level\<close> of the stored XP, a
  floating-point square root; the model takes the resulting level as an argument.
\<close>

definition level_blocked :: "giveaway \<Rightarrow> role_id list \<Rightarrow> int \<Rightarrow> bool" where
  "level_blocked g user_role_ids user_level =
     (if required_level_of g > 0 then
        (if user_level < required_level_of g then
           (if bypass_roles g \<noteq> [] then \<not> has_any_role user_role_ids (bypass_roles g)
            else True)
         else False)
      else False)"

text \<open>
  The loop over \<^verbatim>\<open>extra_entry_roles\<close> with its \<^verbatim>\<open>break\<close>: the entries of the first
  configured role, in list order, that the user holds.
\<close>

fun extra_entries :: "(role_id \<times> int) list \<Rightarrow> role_id list \<Rightarrow> int option" where
  "extra_entries [] user_role_ids = None"
| "extra_entries ((role_id, entries) # rest) user_role_ids =
     (if role_id \<in> set user_role_ids then Some entries
      else extra_entries rest user_role_ids)"

text \<open>
  The participants after a successful join: the user is added with one entry when not a
  participant yet, then the entries are overwritten when an extra-entries rule matches.
\<close>

definition record_entries :: "giveaway \<Rightarrow> user_id \<Rightarrow> role_id list \<Rightarrow> (user_id \<times> int) list" where
  "record_entries g uid user_role_ids =
     (let ps1 = (if map_of (participants g) uid = None
                 then participants g @ [(uid, 1)] else participants g)
      in case extra_entries (extra_entry_roles g) user_role_ids of
           None \<Rightarrow> ps1
         | Some entries \<Rightarrow> AList.update uid entries ps1)"

text \<open>The entries that \<open>record_entries\<close> stores for the user.\<close>

definition recorded_weight :: "giveaway \<Rightarrow> user_id \<Rightarrow> role_id list \<Rightarrow> int" where
  "recorded_weight g uid user_role_ids =
     (case extra_entries (extra_entry_roles g) user_role_ids of
        Some entries \<Rightarrow> entries
      | None \<Rightarrow> (case map_of (participants g) uid of Some old \<Rightarrow> old | None \<Rightarrow> 1))"

definition join_giveaway ::
  "giveaway_id \<Rightarrow> user_id \<Rightarrow> role_id list \<Rightarrow> int \<Rightarrow> (giveaway_id \<rightharpoonup> giveaway)
     \<Rightarrow> join_result \<times> (giveaway_id \<rightharpoonup> giveaway)" where
  "join_giveaway gid uid user_role_ids user_level giveaways_data =
     (case giveaways_data gid of
        None \<Rightarrow> (NotActive, giveaways_data)
      | Some g \<Rightarrow>
          if status g \<noteq> Active then (NotActive, giveaways_data)
          else if required_roles g \<noteq> [] \<and> \<not> has_any_role user_role_ids (required_roles g)
            then (MissingRequiredRole, giveaways_data)
          else if level_blocked g user_role_ids user_level
            then (LevelTooLow, giveaways_data)
          else
            let ps = record_entries g uid user_role_ids;
                giveaways_data' = giveaways_data(gid \<mapsto> g\<lparr>participants := ps\<rparr>)
            in (case map_of ps uid of
                  None \<Rightarrow> (JoinError KeyError, giveaways_data')
                | Some entries \<Rightarrow> (Joined entries, giveaways_data')))"

subsection \<open>The sweep and the draw\<close>


text \<open>
  \<^verbatim>\<open>weighted_participants\<close>: every user id repeated \<^verbatim>\<open>entries\<close> times
  (\<^verbatim>\<open>[user_id] * n\<close> is empty for \<^verbatim>\<open>n <= 0\<close>).
\<close>

definition weighted_pool :: "(user_id \<times> int) list \<Rightarrow> user_id list" where
  "weighted_pool ps = concat (map (\<lambda>(user_id, entries). replicate (nat entries) user_id) ps)"

text \<open>
  \<^verbatim>\<open>random.sample(population, k)\<close> raises ValueError when \<^verbatim>\<open>k\<close> is negative or larger
  than the population; otherwise it returns the elements at \<^verbatim>\<open>k\<close> distinct positions,
  in the order drawn. The positions are the random choice: the model takes them as the
  argument \<open>picks\<close>, and \<open>valid_picks\<close> says which arguments are possible draws.
\<close>

definition random_sample :: "'a list \<Rightarrow> int \<Rightarrow> nat list \<Rightarrow> py_error + 'a list" where
  "random_sample population k picks =
     (if k < 0 \<or> int (length population) < k then Inl ValueError
      else Inr (map (\<lambda>i. population ! i) picks))"

definition valid_picks :: "nat \<Rightarrow> int \<Rightarrow> nat list \<Rightarrow> bool" where
  "valid_picks n k picks \<longleftrightarrow>
     distinct picks \<and> int (length picks) = k \<and> list_all (\<lambda>i. i < n) picks"

text \<open>The loop under "Remove duplicates": first occurrences, in order.\<close>

fun remove_duplicates :: "user_id list \<Rightarrow> user_id list \<Rightarrow> user_id set \<Rightarrow> user_id list" where
  "remove_duplicates [] unique_winners seen = unique_winners"
| "remove_duplicates (winner # rest) unique_winners seen =
     (if winner \<notin> seen
      then remove_duplicates rest (unique_winners @ [winner]) (insert winner seen)
      else remove_duplicates rest unique_winners seen)"

text \<open>
  What a call of \<^verbatim>\<open>end_giveaway\<close> did: returned at the guard, returned because the
  channel was not found, announced "No participants joined", announced the winners, or
  raised. \<open>channel_found\<close> is whether \<^verbatim>\<open>guild.get_channel\<close> finds the channel.
\<close>

datatype end_result =
  NotEnded | NoChannel | NoParticipants | Announced "user_id list" | EndError py_error

definition end_giveaway ::
  "giveaway_id \<Rightarrow> bool \<Rightarrow> nat list \<Rightarrow> (giveaway_id \<rightharpoonup> giveaway)
     \<Rightarrow> end_result \<times> (giveaway_id \<rightharpoonup> giveaway)" where
  "end_giveaway gid channel_found picks giveaways_data =
     (case giveaways_data gid of
        None \<Rightarrow> (NotEnded, giveaways_data)
      | Some g \<Rightarrow>
          if status g \<noteq> Active then (NotEnded, giveaways_data)
          else
            let g1 = g\<lparr>status := Ended\<rparr>;
                giveaways_data1 = giveaways_data(gid \<mapsto> g1)
            in if \<not> channel_found then (NoChannel, giveaways_data1)
               else if participants g1 = [] then (NoParticipants, giveaways_data1)
               else
                 let weighted_participants = weighted_pool (participants g1);
                     winner_count = min (winners g1) (int (length (participants g1)))
                 in (case random_sample weighted_participants winner_count picks of
                       Inl e \<Rightarrow> (EndError e, giveaways_data1)
                     | Inr ws \<Rightarrow>
                         let unique_winners = remove_duplicates ws [] {}
                         in (Announced unique_winners,
                             giveaways_data1(gid \<mapsto> g1\<lparr>winners_list := Some unique_winners\<rparr>))))"

subsection \<open>The earlier definition of the draw\<close>

text \<open>
  The draw of the module's first \<^verbatim>\<open>end_giveaway\<close>, which the later definition shadows:
  \<^verbatim>\<open>winner_count\<close> times, while tickets remain, \<^verbatim>\<open>random.choice\<close> picks a ticket,
  its user is appended to the winners and all tickets of that user are removed.
  \<^verbatim>\<open>random.choice\<close> returns the element at some position of the list: \<open>choices\<close> gives
  the random number of every draw, reduced modulo the length to a position.
\<close>

fun draw_winners :: "nat \<Rightarrow> (nat \<Rightarrow> nat) \<Rightarrow> user_id list \<Rightarrow> user_id list \<Rightarrow> user_id list" where
  "draw_winners 0 choices weighted_participants winners_so_far = winners_so_far"
| "draw_winners (Suc n) choices weighted_participants winners_so_far =
     (if weighted_participants \<noteq> [] then
        (let winner = weighted_participants ! (choices 0 mod length weighted_participants);
             winners' = (if winner \<notin> set winners_so_far
                         then winners_so_far @ [winner] else winners_so_far)
         in draw_winners n (\<lambda>i. choices (Suc i))
              (filter (\<lambda>p. p \<noteq> winner) weighted_participants) winners')
      else draw_winners n (\<lambda>i. choices (Suc i)) weighted_participants winners_so_far)"

definition select_winners_earlier :: "giveaway \<Rightarrow> (nat \<Rightarrow> nat) \<Rightarrow> user_id list" where
  "select_winners_earlier g choices =
     (let weighted_participants = weighted_pool (participants g);
          winner_count = min (winners g) (int (length (remdups (map fst (participants g)))))
      in draw_winners (nat winner_count) choices weighted_participants [])"

subsection \<open>The weight rule in the specification's words\<close>

text \<open>
  The specification's rule for a participant's weight, for comparison with
  \<open>extra_entries\<close>: the highest entries value among the rules whose role the user
  holds, 1 when there is none.
\<close>

definition spec_weight :: "(role_id \<times> int) list \<Rightarrow> role_id list \<Rightarrow> int" where
  "spec_weight rules user_role_ids =
     (case filter (\<lambda>(role_id, entries). role_id \<in> set user_role_ids) rules of
        [] \<Rightarrow> 1
      | (role_id, entries) # rest \<Rightarrow> fold (\<lambda>(r, e) m. max e m) rest entries)"

subsection \<open>Concrete giveaways\<close>

text \<open>
  Two participants, user 1 with two entries and user 2 with one, two winners to draw.
\<close>

definition two_entries_giveaway :: giveaway where
  "two_entries_giveaway =
     \<lparr>status = Active, channel_id = 10, end_time = 100, winners = 2,
      participants = [(1, 2), (2, 1)], required_roles = [], required_level = None,
      bypass_roles = [], extra_entry_roles = [], winners_list = None\<rparr>"

text \<open>
  An open giveaway with two extra-entry rules: role 11 gives 2 entries, role 12 gives 5.
\<close>

definition rules_giveaway :: giveaway where
  "rules_giveaway =
     \<lparr>status = Active, channel_id = 10, end_time = 100, winners = 1,
      participants = [], required_roles = [], required_level = None,
      bypass_roles = [], extra_entry_roles = [(11, 2), (12, 5)], winners_list = None\<rparr>"

section \<open>Invite tracking (\<^verbatim>\<open>handle_member_join_invite_tracking\<close>, \<^verbatim>\<open>handle_member_leave_invite_tracking\<close>)\<close>

text \<open>
  An invite as \<^verbatim>\<open>guild.invites()\<close> returns it: its code, its use count, its inviter
  (a user, or \<^verbatim>\<open>None\<close>), its channel and its creation time. The creation time is an
  opaque number to the handlers.
\<close>

record invite =
  code :: string
  uses :: int
  inviter :: "user_id option"
  channel :: "int option"
  created_at :: "int option"

text \<open>An entry of \<^verbatim>\<open>invite_data["invites"]\<close>, keyed by the invite code.\<close>

record cached_invite =
  cached_uses :: int
  cached_inviter_id :: "user_id option"
  cached_channel_id :: "int option"
  cached_created_at :: "int option"

text \<open>
  An entry of \<^verbatim>\<open>invite_data["members"]\<close> is a dictionary in which every key may be
  absent: an inviter's entry has \<^verbatim>\<open>total_invites\<close>, \<^verbatim>\<open>left_invites\<close> and
  \<^verbatim>\<open>recent_invites\<close> (a list of \<^verbatim>\<open>{"member_id", "timestamp"}\<close>), an invitee's entry has
  \<^verbatim>\<open>invited_by\<close>, \<^verbatim>\<open>invite_code\<close> and \<^verbatim>\<open>join_timestamp\<close>.
\<close>

record member_entry =
  total_invites :: "int option"
  left_invites :: "int option"
  recent_invites :: "(user_id \<times> int) list option"
  invited_by :: "user_id option"
  invite_code :: "string option"
  join_timestamp :: "int option"

text \<open>
  \<^verbatim>\<open>invite_data\<close> is loaded from a JSON file that starts empty: the keys
  \<^verbatim>\<open>"invites"\<close> and \<^verbatim>\<open>"members"\<close> may both be absent.
\<close>

record invite_data =
  invites :: "(string \<rightharpoonup> cached_invite) option"
  members :: "(user_id \<rightharpoonup> member_entry) option"

definition empty_entry :: member_entry where
  "empty_entry =
     \<lparr>total_invites = None, left_invites = None, recent_invites = None,
      invited_by = None, invite_code = None, join_timestamp = None\<rparr>"

definition new_inviter_entry :: member_entry where
  "new_inviter_entry =
     \<lparr>total_invites = Some 0, left_invites = Some 0, recent_invites = Some [],
      invited_by = None, invite_code = None, join_timestamp = None\<rparr>"

definition invitee_entry :: "user_id \<Rightarrow> string \<Rightarrow> int \<Rightarrow> member_entry" where
  "invitee_entry inviter_id c now =
     \<lparr>total_invites = None, left_invites = None, recent_invites = None,
      invited_by = Some inviter_id, invite_code = Some c, join_timestamp = Some now\<rparr>"

subsection \<open>Finding the used invite\<close>

text \<open>\<^verbatim>\<open>cached_invites.get(invite.code, {}).get("uses", 0)\<close>\<close>

definition cached_uses_of :: "invite_data \<Rightarrow> string \<Rightarrow> int" where
  "cached_uses_of d c =
     (case invites d of
        None \<Rightarrow> 0
      | Some cached \<Rightarrow> (case cached c of None \<Rightarrow> 0 | Some e \<Rightarrow> cached_uses e))"

text \<open>\<^verbatim>\<open>invite.uses > cached_uses\<close>\<close>

definition increased :: "invite_data \<Rightarrow> invite \<Rightarrow> bool" where
  "increased d i \<longleftrightarrow> uses i > cached_uses_of d (code i)"

text \<open>The loop over \<^verbatim>\<open>current_invites\<close> with its \<^verbatim>\<open>break\<close>.\<close>

fun find_used_invite :: "invite_data \<Rightarrow> invite list \<Rightarrow> invite option" where
  "find_used_invite d [] = None"
| "find_used_invite d (i # rest) =
     (if increased d i then Some i else find_used_invite d rest)"

subsection \<open>The steps of the join handler\<close>

text \<open>
  The handler's body is one \<^verbatim>\<open>try\<close> block whose \<^verbatim>\<open>except Exception\<close> logs the error
  and returns. A step yields the logged error, if it raised, and \<^verbatim>\<open>invite_data\<close> as
  the step left it: what was written before an exception stays written.
\<close>

type_synonym 's step_result = "py_error option \<times> 's"

definition then_step :: "'s step_result \<Rightarrow> ('s \<Rightarrow> 's step_result) \<Rightarrow> 's step_result" where
  "then_step r f = (case r of (None, s) \<Rightarrow> f s | (Some e, s) \<Rightarrow> (Some e, s))"

text \<open>\<^verbatim>\<open>invite_data["invites"][used_invite.code]["uses"] = used_invite.uses\<close>\<close>

definition update_cached_uses :: "invite \<Rightarrow> invite_data \<Rightarrow> invite_data step_result" where
  "update_cached_uses used_invite d =
     (case invites d of
        None \<Rightarrow> (Some KeyError, d)
      | Some cached \<Rightarrow>
          (case cached (code used_invite) of
             None \<Rightarrow> (Some KeyError, d)
           | Some e \<Rightarrow>
               (None, d\<lparr>invites :=
                  Some (cached(code used_invite \<mapsto> e\<lparr>cached_uses := uses used_invite\<rparr>))\<rparr>)))"

text \<open>
  The inviter's statistics, for an \<^verbatim>\<open>inviter_id\<close> that is bound: create the entry when
  missing, add one to \<^verbatim>\<open>total_invites\<close>, append to \<^verbatim>\<open>recent_invites\<close> and keep its
  last ten.
\<close>

definition count_invite ::
  "user_id \<Rightarrow> user_id \<Rightarrow> int \<Rightarrow> (user_id \<rightharpoonup> member_entry)
     \<Rightarrow> (user_id \<rightharpoonup> member_entry) step_result" where
  "count_invite inviter_id member_id now ms =
     (let ms1 = (if ms inviter_id = None then ms(inviter_id \<mapsto> new_inviter_entry) else ms);
          e = (case ms inviter_id of None \<Rightarrow> new_inviter_entry | Some e0 \<Rightarrow> e0)
      in case total_invites e of
           None \<Rightarrow> (Some KeyError, ms1)
         | Some t \<Rightarrow>
             let e1 = e\<lparr>total_invites := Some (t + 1)\<rparr>
             in (case recent_invites e1 of
                   None \<Rightarrow> (Some KeyError, ms1(inviter_id \<mapsto> e1))
                 | Some recent \<Rightarrow>
                     let recent1 = recent @ [(member_id, now)];
                         recent2 = (if length recent1 > 10
                                    then drop (length recent1 - 10) recent1 else recent1)
                     in (None, ms1(inviter_id \<mapsto> e1\<lparr>recent_invites := Some recent2\<rparr>))))"

text \<open>
  "Record who invited this member": an empty entry is created when the member has none,
  and the entry is replaced by the invitee's three fields unless it has
  \<^verbatim>\<open>total_invites\<close>.
\<close>

definition record_invitee ::
  "user_id \<Rightarrow> user_id \<Rightarrow> string \<Rightarrow> int \<Rightarrow> (user_id \<rightharpoonup> member_entry)
     \<Rightarrow> (user_id \<rightharpoonup> member_entry)" where
  "record_invitee member_id inviter_id c now ms =
     (let ms1 = (if ms member_id = None then ms(member_id \<mapsto> empty_entry) else ms);
          e = (case ms member_id of None \<Rightarrow> empty_entry | Some e0 \<Rightarrow> e0)
      in if total_invites e = None
         then ms1(member_id \<mapsto> invitee_entry inviter_id c now) else ms1)"

text \<open>
  The attribution branch, entered when a used invite with an inviter was found. The
  local variable \<^verbatim>\<open>inviter_id\<close> is assigned only inside
  \<^verbatim>\<open>if "members" not in invite_data:\<close>; when the key exists, the next line reads the
  unassigned variable and raises UnboundLocalError. \<open>platform_ok\<close> is whether the calls
  to the chat platform after the bookkeeping (the inviter's roles, the welcome message)
  return without raising. Both timestamps are read from the clock within the same call
  and are taken to be the same \<open>now\<close>.
\<close>

definition attribute_join ::
  "user_id \<Rightarrow> int \<Rightarrow> invite \<Rightarrow> user_id \<Rightarrow> bool \<Rightarrow> invite_data \<Rightarrow> invite_data step_result" where
  "attribute_join member_id now used_invite inviter_user platform_ok d =
     then_step (update_cached_uses used_invite d) (\<lambda>d1.
       case members d1 of
         Some ms \<Rightarrow> (Some UnboundLocalError, d1)
       | None \<Rightarrow>
           (case count_invite inviter_user member_id now Map.empty of
              (Some e, ms1) \<Rightarrow> (Some e, d1\<lparr>members := Some ms1\<rparr>)
            | (None, ms1) \<Rightarrow>
                let ms2 = record_invitee member_id inviter_user (code used_invite) now ms1;
                    d2 = d1\<lparr>members := Some ms2\<rparr>
                in if platform_ok then (None, d2) else (Some PlatformError, d2)))"

text \<open>"Cache new invite states": the loop that stores every invite of the snapshot.\<close>

definition cache_entry :: "invite \<Rightarrow> cached_invite" where
  "cache_entry i =
     \<lparr>cached_uses = uses i, cached_inviter_id = inviter i,
      cached_channel_id = channel i, cached_created_at = created_at i\<rparr>"

fun cache_invites :: "invite list \<Rightarrow> invite_data \<Rightarrow> invite_data step_result" where
  "cache_invites [] d = (None, d)"
| "cache_invites (i # rest) d =
     (case invites d of
        None \<Rightarrow> (Some KeyError, d)
      | Some cached \<Rightarrow>
          cache_invites rest (d\<lparr>invites := Some (cached(code i \<mapsto> cache_entry i))\<rparr>))"

subsection \<open>The handlers\<close>

definition handle_member_join_invite_tracking ::
  "user_id \<Rightarrow> int \<Rightarrow> invite list \<Rightarrow> bool \<Rightarrow> invite_data \<Rightarrow> invite_data step_result" where
  "handle_member_join_invite_tracking member_id now current_invites platform_ok d =
     (case find_used_invite d current_invites of
        None \<Rightarrow> cache_invites current_invites d
      | Some used_invite \<Rightarrow>
          (case inviter used_invite of
             None \<Rightarrow> cache_invites current_invites d
           | Some inviter_user \<Rightarrow>
               then_step
                 (attribute_join member_id now used_invite inviter_user platform_ok d)
                 (cache_invites current_invites)))"

text \<open>
  The leave handler: \<^verbatim>\<open>if inviter_id:\<close> is false for an absent key and for 0. The
  write to \<^verbatim>\<open>left_invites\<close> precedes the platform call, so an exception of that call,
  which the handler catches, leaves the state as returned here.
\<close>

definition handle_member_leave_invite_tracking :: "user_id \<Rightarrow> invite_data \<Rightarrow> invite_data" where
  "handle_member_leave_invite_tracking member_id d =
     (let ms = (case members d of None \<Rightarrow> Map.empty | Some m \<Rightarrow> m);
          member_data = (case ms member_id of None \<Rightarrow> empty_entry | Some e \<Rightarrow> e)
      in case invited_by member_data of
           None \<Rightarrow> d
         | Some inviter_id \<Rightarrow>
             if inviter_id = 0 then d
             else (case ms inviter_id of
                     None \<Rightarrow> d
                   | Some e \<Rightarrow>
                       d\<lparr>members := Some (ms(inviter_id \<mapsto>
                         e\<lparr>left_invites :=
                             Some ((case left_invites e of None \<Rightarrow> 0 | Some l \<Rightarrow> l) + 1)\<rparr>))\<rparr>))"

text \<open>
  The statistics shown by the \<^verbatim>\<open>/invites\<close> command and the leaderboard:
  \<^verbatim>\<open>total_invites - left_invites\<close>, each read with default 0.
\<close>

definition total_of :: "invite_data \<Rightarrow> user_id \<Rightarrow> int" where
  "total_of d u =
     (case members d of None \<Rightarrow> 0
      | Some ms \<Rightarrow> (case ms u of None \<Rightarrow> 0
          | Some e \<Rightarrow> (case total_invites e of None \<Rightarrow> 0 | Some t \<Rightarrow> t)))"

definition left_of :: "invite_data \<Rightarrow> user_id \<Rightarrow> int" where
  "left_of d u =
     (case members d of None \<Rightarrow> 0
      | Some ms \<Rightarrow> (case ms u of None \<Rightarrow> 0
          | Some e \<Rightarrow> (case left_invites e of None \<Rightarrow> 0 | Some l \<Rightarrow> l)))"

definition current_invites_of :: "invite_data \<Rightarrow> user_id \<Rightarrow> int" where
  "current_invites_of d u = total_of d u - left_of d u"

subsection \<open>Sequences of joins and leaves\<close>

datatype event = MemberJoin user_id int "invite list" bool | MemberLeave user_id

fun apply_event :: "event \<Rightarrow> invite_data \<Rightarrow> invite_data" where
  "apply_event (MemberJoin member_id now current_invites platform_ok) d =
     snd (handle_member_join_invite_tracking member_id now current_invites platform_ok d)"
| "apply_event (MemberLeave member_id) d = handle_member_leave_invite_tracking member_id d"

fun run_events :: "event list \<Rightarrow> invite_data \<Rightarrow> invite_data" where
  "run_events [] d = d"
| "run_events (ev # evs) d = run_events evs (apply_event ev d)"

subsection \<open>Concrete invite states\<close>


definition invite_a :: "int \<Rightarrow> invite" where
  "invite_a n = \<lparr>code = ''a'', uses = n, inviter = Some 100, channel = None, created_at = None\<rparr>"

definition invite_b :: "int \<Rightarrow> invite" where
  "invite_b n = \<lparr>code = ''b'', uses = n, inviter = Some 200, channel = None, created_at = None\<rparr>"

text \<open>A member-less state with a cache that knows invite \<open>a\<close> with no uses yet.\<close>

definition fresh_cache :: invite_data where
  "fresh_cache =
     \<lparr>invites = Some [''a'' \<mapsto> \<lparr>cached_uses = 0, cached_inviter_id = Some 100,
                                cached_channel_id = None, cached_created_at = None\<rparr>],
      members = None\<rparr>"

text \<open>The state after member 7 joined through invite \<open>a\<close>, the first attribution.\<close>

definition attributed_once :: invite_data where
  "attributed_once = snd (handle_member_join_invite_tracking 7 1000 [invite_a 1] True fresh_cache)"

text \<open>
  The invitee's three fields of a member's entry, when the member has an entry.
\<close>

definition invitee_fields ::
  "invite_data \<Rightarrow> user_id \<Rightarrow> (user_id option \<times> string option \<times> int option) option" where
  "invitee_fields d m =
     (case members d of
        None \<Rightarrow> None
      | Some ms \<Rightarrow>
          (case ms m of
             None \<Rightarrow> None
           | Some e \<Rightarrow> Some (invited_by e, invite_code e, join_timestamp e)))"

section \<open>Entitlement: properties\<close>

lemma slot_roles_loop_sum:
  "slot_roles_loop tbl rs tot =
     tot + (\<Sum>r\<leftarrow>rs. case map_of tbl (IntKey r) of Some sr \<Rightarrow> slots sr | None \<Rightarrow> 0)"
  by (induction rs arbitrary: tot) (auto split: option.splits)

lemma auto_slot_roles_loop_sum:
  "auto_slot_roles_loop tbl rs tot =
     tot + (\<Sum>r\<leftarrow>rs. case map_of tbl (IntKey r) of Some n \<Rightarrow> n | None \<Rightarrow> 0)"
  by (induction rs arbitrary: tot) (auto split: option.splits)

lemma sum_list_table:
  fixes f :: "'v \<Rightarrow> int"
  assumes "distinct rs"
  shows "(\<Sum>r\<leftarrow>rs. case look r of Some v \<Rightarrow> f v | None \<Rightarrow> 0) =
         (\<Sum>r \<in> set rs \<inter> dom look. f (the (look r)))"
proof -
  have "(\<Sum>r\<leftarrow>rs. case look r of Some v \<Rightarrow> f v | None \<Rightarrow> 0) =
        (\<Sum>r \<in> set rs. case look r of Some v \<Rightarrow> f v | None \<Rightarrow> 0)"
    using assms by (simp add: sum_list_distinct_conv_sum_set)
  also have "\<dots> = (\<Sum>r \<in> set rs \<inter> dom look. case look r of Some v \<Rightarrow> f v | None \<Rightarrow> 0)"
    by (rule sum.mono_neutral_right) (auto split: option.splits)
  also have "\<dots> = (\<Sum>r \<in> set rs \<inter> dom look. f (the (look r)))"
    by (rule sum.cong) (auto split: option.splits)
  finally show ?thesis .
qed

text \<open>
  What does hold of \<^verbatim>\<open>calculate_user_slots\<close>: it sums the slot counts of both tables
  over the member's roles whose integer id is a key of the table.
\<close>

lemma calculate_user_slots_sum:
  assumes "distinct member_roles"
  shows "calculate_user_slots cfg member_roles =
      (\<Sum>r \<in> set member_roles \<inter> dom (\<lambda>r. map_of (config_get (slot_roles cfg)) (IntKey r)).
          slots (the (map_of (config_get (slot_roles cfg)) (IntKey r))))
    + (\<Sum>r \<in> set member_roles \<inter> dom (\<lambda>r. map_of (config_get (auto_slot_roles cfg)) (IntKey r)).
          the (map_of (config_get (auto_slot_roles cfg)) (IntKey r)))"
  unfolding calculate_user_slots_def slot_roles_loop_sum auto_slot_roles_loop_sum
  using sum_list_table[OF assms,
          where look = "\<lambda>r. map_of (config_get (slot_roles cfg)) (IntKey r)" and f = slots]
        sum_list_table[OF assms,
          where look = "\<lambda>r. map_of (config_get (auto_slot_roles cfg)) (IntKey r)"
            and f = "\<lambda>n. n"]
  by simp

lemma calculate_user_slots_nonneg:
  assumes "nonneg_tables cfg"
  shows "0 \<le> calculate_user_slots cfg member_roles"
proof -
  have lookup_a: "\<And>r sr. map_of (config_get (slot_roles cfg)) (IntKey r) = Some sr \<Longrightarrow> 0 \<le> slots sr"
    using assms by (auto simp: nonneg_tables_def list_all_iff dest!: map_of_SomeD)
  have lookup_b: "\<And>r n. map_of (config_get (auto_slot_roles cfg)) (IntKey r) = Some n \<Longrightarrow> 0 \<le> n"
    using assms by (auto simp: nonneg_tables_def list_all_iff dest!: map_of_SomeD)
  have a: "0 \<le> (\<Sum>r\<leftarrow>member_roles.
      case map_of (config_get (slot_roles cfg)) (IntKey r) of Some sr \<Rightarrow> slots sr | None \<Rightarrow> 0)"
    using lookup_a by (intro sum_list_nonneg) (auto split: option.splits)
  have b: "0 \<le> (\<Sum>r\<leftarrow>member_roles.
      case map_of (config_get (auto_slot_roles cfg)) (IntKey r) of Some n \<Rightarrow> n | None \<Rightarrow> 0)"
    using lookup_b by (intro sum_list_nonneg) (auto split: option.splits)
  show ?thesis
    unfolding calculate_user_slots_def slot_roles_loop_sum auto_slot_roles_loop_sum
    using a b by simp
qed

text \<open>
  What does hold of \<^verbatim>\<open>update_user_slots\<close>: the total is the calculated slots plus the
  manual slots, the used slots are clamped to the total, and no other user's entry
  changes.
\<close>

lemma update_user_slots_entry:
  "update_user_slots cfg uid member_roles premium_slots uid =
     Some ((entry_before premium_slots uid)
       \<lparr>total_slots := calculate_user_slots cfg member_roles + manual_of (entry_before premium_slots uid),
        used_slots := min (used_slots (entry_before premium_slots uid))
          (calculate_user_slots cfg member_roles + manual_of (entry_before premium_slots uid))\<rparr>)"
  by (auto simp: update_user_slots_def entry_before_def manual_of_def Let_def min_def
           split: option.splits)

lemma update_user_slots_other:
  "other \<noteq> uid \<Longrightarrow>
     update_user_slots cfg uid member_roles premium_slots other = premium_slots other"
  by (simp add: update_user_slots_def Let_def)

subsection \<open>After a restart\<close>

text \<open>
  A reloaded table has no integer key, so no role of any member is found in it.
\<close>

lemma json_key_str: "json_key k \<noteq> IntKey r"
  by (simp add: json_key_def split: dict_key.splits)

lemma fold_update_keys:
  "fst ` set (fold (\<lambda>(k, v) loaded. AList.update (json_key k) v loaded) items acc) \<subseteq>
     fst ` set acc \<union> range json_key"
proof (induction items arbitrary: acc)
  case Nil
  then show ?case by simp
next
  case (Cons kv items)
  obtain k v where kv: "kv = (k, v)" by (cases kv)
  have "fst ` set (AList.update (json_key k) v acc) \<subseteq> fst ` set acc \<union> range json_key"
    by (auto simp: dom_update image_iff)
  with Cons.IH[of "AList.update (json_key k) v acc"] kv show ?case by auto
qed

lemma json_roundtrip_no_int_key: "map_of (json_roundtrip items) (IntKey r) = None"
proof -
  have "fst ` set (json_roundtrip items) \<subseteq> range json_key"
    using fold_update_keys[of items "[]"] by (simp add: json_roundtrip_def)
  then have "IntKey r \<notin> fst ` set (json_roundtrip items)"
    using json_key_str[of _ r] by fastforce
  then show ?thesis by (simp add: map_of_eq_None_iff)
qed

lemma slot_roles_loop_no_int_key:
  "(\<And>r. map_of tbl (IntKey r) = None) \<Longrightarrow> slot_roles_loop tbl rs tot = tot"
  by (induction rs arbitrary: tot) simp_all

lemma auto_slot_roles_loop_no_int_key:
  "(\<And>r. map_of tbl (IntKey r) = None) \<Longrightarrow> auto_slot_roles_loop tbl rs tot = tot"
  by (induction rs arbitrary: tot) simp_all

lemma calculate_user_slots_reloaded:
  "calculate_user_slots (reload_config cfg) member_roles = 0"
proof -
  have a: "\<And>r. map_of (config_get (slot_roles (reload_config cfg))) (IntKey r) = None"
    by (cases "slot_roles cfg")
       (simp_all add: reload_config_def config_get_def json_roundtrip_no_int_key)
  have b: "\<And>r. map_of (config_get (auto_slot_roles (reload_config cfg))) (IntKey r) = None"
    by (cases "auto_slot_roles cfg")
       (simp_all add: reload_config_def config_get_def json_roundtrip_no_int_key)
  show ?thesis
    unfolding calculate_user_slots_def
    by (simp add: slot_roles_loop_no_int_key[OF a] auto_slot_roles_loop_no_int_key[OF b])
qed

lemma py_str_examples: "py_str 1 = ''1''" "py_str 2 = ''2''"
  by code_simp+

lemma reload_example_config:
  "reload_config example_config =
     \<lparr>slot_roles = Some [(StrKey ''1'', \<lparr>role_name = ''2 boosts'', slots = 2\<rparr>)],
      auto_slot_roles = Some [(StrKey ''1'', 3), (StrKey ''2'', 1)]\<rparr>"
  by (simp add: reload_config_def example_config_def json_roundtrip_def json_key_def
        py_str_examples)

text \<open>
  Claim C6 at a configuration that was saved and reloaded. A member holds roles 1, 2
  and 5. With the tables as the configuration form stored them the role-derived slots
  are 2 + 3 + 1 = 6. After a restart the same tables have the keys "1" and "2", the
  integer role ids are not found, the role-derived slots are 0 and the member's used
  slots are clamped from 8 to the manual slot alone.
\<close>

theorem calculate_user_slots_after_reload:
  "calculate_user_slots example_config [1, 2, 5] = 6 \<and>
   reload_config example_config =
     \<lparr>slot_roles = Some [(StrKey ''1'', \<lparr>role_name = ''2 boosts'', slots = 2\<rparr>)],
      auto_slot_roles = Some [(StrKey ''1'', 3), (StrKey ''2'', 1)]\<rparr> \<and>
   calculate_user_slots (reload_config example_config) [1, 2, 5] = 0 \<and>
   update_user_slots example_config 7 [1, 2, 5] example_premium_slots 7 =
     Some \<lparr>total_slots = 7, used_slots = 7, manual_slots = Some 1\<rparr> \<and>
   update_user_slots (reload_config example_config) 7 [1, 2, 5] example_premium_slots 7 =
     Some \<lparr>total_slots = 1, used_slots = 1, manual_slots = Some 1\<rparr>"
proof -
  have before: "calculate_user_slots example_config [1, 2, 5] = 6"
    by (simp add: calculate_user_slots_def example_config_def config_get_def)
  have after: "calculate_user_slots (reload_config example_config) [1, 2, 5] = 0"
    by (rule calculate_user_slots_reloaded)
  have entry: "entry_before example_premium_slots 7 =
      \<lparr>total_slots = 9, used_slots = 8, manual_slots = Some 1\<rparr>"
    by (simp add: entry_before_def example_premium_slots_def)
  have upd_before: "update_user_slots example_config 7 [1, 2, 5] example_premium_slots 7 =
      Some \<lparr>total_slots = 7, used_slots = 7, manual_slots = Some 1\<rparr>"
    by (simp add: update_user_slots_entry before entry manual_of_def)
  have upd_after:
    "update_user_slots (reload_config example_config) 7 [1, 2, 5] example_premium_slots 7 =
      Some \<lparr>total_slots = 1, used_slots = 1, manual_slots = Some 1\<rparr>"
    by (simp add: update_user_slots_entry after entry manual_of_def)
  from before reload_example_config after upd_before upd_after show ?thesis
    by (intro conjI)
qed

section \<open>Giveaways: properties\<close>

subsection \<open>The extra-entries loop takes the first match\<close>

lemma extra_entries_Some:
  "(extra_entries rules rs = Some e) =
     (\<exists>pre r post. rules = pre @ (r, e) # post \<and> r \<in> set rs \<and>
        list_all (\<lambda>(r', e'). r' \<notin> set rs) pre)"
proof (induction rules rs rule: extra_entries.induct)
  case (1 user_role_ids)
  then show ?case by simp
next
  case (2 role_id entries rest user_role_ids)
  show ?case
  proof (cases "role_id \<in> set user_role_ids")
    case True
    have "(entries = e) = (\<exists>pre r post. (role_id, entries) # rest = pre @ (r, e) # post \<and>
        r \<in> set user_role_ids \<and> list_all (\<lambda>(r', e'). r' \<notin> set user_role_ids) pre)"
    proof
      assume "entries = e"
      with True have "(role_id, entries) # rest = [] @ (role_id, e) # rest \<and>
        role_id \<in> set user_role_ids \<and> list_all (\<lambda>(r', e'). r' \<notin> set user_role_ids) []"
        by simp
      then show "\<exists>pre r post. (role_id, entries) # rest = pre @ (r, e) # post \<and>
        r \<in> set user_role_ids \<and> list_all (\<lambda>(r', e'). r' \<notin> set user_role_ids) pre"
        by blast
    next
      assume "\<exists>pre r post. (role_id, entries) # rest = pre @ (r, e) # post \<and>
        r \<in> set user_role_ids \<and> list_all (\<lambda>(r', e'). r' \<notin> set user_role_ids) pre"
      then obtain pre r post where eq: "(role_id, entries) # rest = pre @ (r, e) # post"
        and pre: "list_all (\<lambda>(r', e'). r' \<notin> set user_role_ids) pre" by blast
      show "entries = e"
      proof (cases pre)
        case Nil
        with eq show ?thesis by simp
      next
        case (Cons p pre')
        with eq have "p = (role_id, entries)" by simp
        with pre Cons True show ?thesis by simp
      qed
    qed
    with True show ?thesis by simp
  next
    case False
    have "(\<exists>pre r post. rest = pre @ (r, e) # post \<and> r \<in> set user_role_ids \<and>
             list_all (\<lambda>(r', e'). r' \<notin> set user_role_ids) pre) =
          (\<exists>pre r post. (role_id, entries) # rest = pre @ (r, e) # post \<and>
             r \<in> set user_role_ids \<and> list_all (\<lambda>(r', e'). r' \<notin> set user_role_ids) pre)"
    proof
      assume "\<exists>pre r post. rest = pre @ (r, e) # post \<and> r \<in> set user_role_ids \<and>
             list_all (\<lambda>(r', e'). r' \<notin> set user_role_ids) pre"
      then obtain pre r post where "rest = pre @ (r, e) # post" "r \<in> set user_role_ids"
        "list_all (\<lambda>(r', e'). r' \<notin> set user_role_ids) pre" by blast
      with False have "(role_id, entries) # rest = ((role_id, entries) # pre) @ (r, e) # post \<and>
          r \<in> set user_role_ids \<and>
          list_all (\<lambda>(r', e'). r' \<notin> set user_role_ids) ((role_id, entries) # pre)"
        by simp
      then show "\<exists>pre r post. (role_id, entries) # rest = pre @ (r, e) # post \<and>
             r \<in> set user_role_ids \<and> list_all (\<lambda>(r', e'). r' \<notin> set user_role_ids) pre"
        by blast
    next
      assume "\<exists>pre r post. (role_id, entries) # rest = pre @ (r, e) # post \<and>
             r \<in> set user_role_ids \<and> list_all (\<lambda>(r', e'). r' \<notin> set user_role_ids) pre"
      then obtain pre r post where eq: "(role_id, entries) # rest = pre @ (r, e) # post"
        and r: "r \<in> set user_role_ids"
        and pre: "list_all (\<lambda>(r', e'). r' \<notin> set user_role_ids) pre" by blast
      show "\<exists>pre r post. rest = pre @ (r, e) # post \<and> r \<in> set user_role_ids \<and>
             list_all (\<lambda>(r', e'). r' \<notin> set user_role_ids) pre"
      proof (cases pre)
        case Nil
        with eq r False show ?thesis by simp
      next
        case (Cons p pre')
        with eq pre r have "rest = pre' @ (r, e) # post \<and> r \<in> set user_role_ids \<and>
          list_all (\<lambda>(r', e'). r' \<notin> set user_role_ids) pre'" by simp
        then show ?thesis by blast
      qed
    qed
    with False 2 show ?thesis by simp
  qed
qed

lemma extra_entries_None:
  "(extra_entries rules rs = None) = list_all (\<lambda>(r, e). r \<notin> set rs) rules"
  by (induction rules rs rule: extra_entries.induct) auto

subsection \<open>Guards of end and join\<close>

lemma end_giveaway_not_active:
  "case_option True (\<lambda>g. status g \<noteq> Active) (gd gid) \<Longrightarrow>
     end_giveaway gid ch picks gd = (NotEnded, gd)"
  by (auto simp: end_giveaway_def split: option.splits)

lemma end_giveaway_status:
  "gd gid = Some g \<Longrightarrow> status g = Active \<Longrightarrow>
     \<exists>g1. snd (end_giveaway gid ch picks gd) gid = Some g1 \<and> status g1 = Ended"
  by (auto simp: end_giveaway_def Let_def split: sum.splits)

lemma end_giveaway_never_active:
  "case_option True (\<lambda>g. status g \<noteq> Active) (snd (end_giveaway gid ch picks gd) gid)"
  by (auto simp: end_giveaway_def Let_def split: option.splits sum.splits)

lemma join_giveaway_not_active:
  "case_option True (\<lambda>g. status g \<noteq> Active) (gd gid) \<Longrightarrow>
     join_giveaway gid uid rs lvl gd = (NotActive, gd)"
  by (auto simp: join_giveaway_def split: option.splits)

text \<open>
  Claim C2. A second call of end changes nothing: whatever the first call did, a further
  call returns at the guard and leaves every giveaway, and so the winners list, as the
  first call left it. When the first call found the giveaway active it is ended
  afterwards, and a giveaway that is already ended is not touched.
\<close>

theorem end_giveaway_idempotent:
  "end_giveaway gid ch2 picks2 (snd (end_giveaway gid ch1 picks1 gd)) =
     (NotEnded, snd (end_giveaway gid ch1 picks1 gd)) \<and>
   (\<forall>g. gd gid = Some g \<and> status g = Active \<longrightarrow>
      (\<exists>g1. snd (end_giveaway gid ch1 picks1 gd) gid = Some g1 \<and> status g1 = Ended)) \<and>
   (\<forall>g. gd gid = Some g \<and> status g = Ended \<longrightarrow>
      end_giveaway gid ch1 picks1 gd = (NotEnded, gd))"
proof -
  have twice: "end_giveaway gid ch2 picks2 (snd (end_giveaway gid ch1 picks1 gd)) =
     (NotEnded, snd (end_giveaway gid ch1 picks1 gd))"
    by (rule end_giveaway_not_active) (rule end_giveaway_never_active)
  have ended: "\<forall>g. gd gid = Some g \<and> status g = Active \<longrightarrow>
      (\<exists>g1. snd (end_giveaway gid ch1 picks1 gd) gid = Some g1 \<and> status g1 = Ended)"
    using end_giveaway_status by blast
  have noop: "\<forall>g. gd gid = Some g \<and> status g = Ended \<longrightarrow>
      end_giveaway gid ch1 picks1 gd = (NotEnded, gd)"
    by (simp add: end_giveaway_not_active)
  from twice ended noop show ?thesis by blast
qed

theorem end_giveaway_idempotent_witness:
  "[''g'' \<mapsto> two_entries_giveaway] ''g'' = Some two_entries_giveaway \<and>
   status two_entries_giveaway = Active \<and>
   end_giveaway ''g'' True [0, 2] [''g'' \<mapsto> two_entries_giveaway] =
     (Announced [1, 2],
      [''g'' \<mapsto> two_entries_giveaway\<lparr>status := Ended, winners_list := Some [1, 2]\<rparr>]) \<and>
   end_giveaway ''g'' True [2, 1]
       (snd (end_giveaway ''g'' True [0, 2] [''g'' \<mapsto> two_entries_giveaway])) =
     (NotEnded,
      [''g'' \<mapsto> two_entries_giveaway\<lparr>status := Ended, winners_list := Some [1, 2]\<rparr>])"
  using end_giveaway_idempotent[of "''g''" True "[2, 1]" True "[0, 2]"
          "[''g'' \<mapsto> two_entries_giveaway]"]
  by (simp add: end_giveaway_def two_entries_giveaway_def weighted_pool_def
        random_sample_def Let_def eval_nat_numeral)

text \<open>
  Claim C3. After a call of end for a giveaway, whatever that call did, every join for
  that giveaway answers "no longer active" and leaves all giveaways, and so the
  participants, unchanged, for every user, role list and level; the handler reads no
  clock. The same holds for every giveaway whose status is ended.
\<close>

theorem join_after_end_not_active:
  "join_giveaway gid uid user_role_ids user_level (snd (end_giveaway gid ch picks gd)) =
     (NotActive, snd (end_giveaway gid ch picks gd)) \<and>
   (\<forall>g. gd gid = Some g \<and> status g = Ended \<longrightarrow>
      join_giveaway gid uid user_role_ids user_level gd = (NotActive, gd))"
proof -
  have after: "join_giveaway gid uid user_role_ids user_level
       (snd (end_giveaway gid ch picks gd)) = (NotActive, snd (end_giveaway gid ch picks gd))"
    by (rule join_giveaway_not_active) (rule end_giveaway_never_active)
  have ended: "\<forall>g. gd gid = Some g \<and> status g = Ended \<longrightarrow>
      join_giveaway gid uid user_role_ids user_level gd = (NotActive, gd)"
    by (simp add: join_giveaway_not_active)
  from after ended show ?thesis by blast
qed

theorem join_after_end_not_active_witness:
  "snd (end_giveaway ''g'' True [0, 2] [''g'' \<mapsto> two_entries_giveaway]) ''g'' =
     Some (two_entries_giveaway\<lparr>status := Ended, winners_list := Some [1, 2]\<rparr>) \<and>
   status (two_entries_giveaway\<lparr>status := Ended, winners_list := Some [1, 2]\<rparr>) = Ended \<and>
   join_giveaway ''g'' 3 [] 0
       (snd (end_giveaway ''g'' True [0, 2] [''g'' \<mapsto> two_entries_giveaway])) =
     (NotActive,
      [''g'' \<mapsto> two_entries_giveaway\<lparr>status := Ended, winners_list := Some [1, 2]\<rparr>])"
  using join_after_end_not_active[of "''g''" 3 "[]" 0 True "[0, 2]"
          "[''g'' \<mapsto> two_entries_giveaway]"]
  by (simp add: end_giveaway_def two_entries_giveaway_def weighted_pool_def
        random_sample_def Let_def eval_nat_numeral)

subsection \<open>Joining and the end time\<close>




subsection \<open>The recorded weight\<close>

lemma map_of_append_new:
  "map_of ps uid = None \<Longrightarrow> map_of (ps @ [(uid, v)]) = (map_of ps)(uid \<mapsto> v)"
  by (rule ext) (auto simp: map_add_def split: option.splits)

lemma length_update_present:
  "map_of ps uid \<noteq> None \<Longrightarrow> length (AList.update uid v ps) = length ps"
  by (induction ps) auto

lemma map_of_record_entries:
  "map_of (record_entries g uid user_role_ids) =
     (map_of (participants g))(uid \<mapsto> recorded_weight g uid user_role_ids)"
proof (cases "map_of (participants g) uid")
  case None
  then show ?thesis
    by (simp add: record_entries_def recorded_weight_def update_conv' map_of_append_new
          del: map_of_append split: option.splits)
next
  case (Some old)
  then have "(map_of (participants g))(uid \<mapsto> old) = map_of (participants g)"
    by (simp add: fun_upd_idem)
  with Some show ?thesis
    by (simp add: record_entries_def recorded_weight_def update_conv' split: option.splits)
qed

lemma length_record_entries:
  "length (record_entries g uid user_role_ids) =
     (if map_of (participants g) uid = None then length (participants g) + 1
      else length (participants g))"
proof (cases "map_of (participants g) uid")
  case None
  then have "map_of (participants g @ [(uid, 1)]) uid \<noteq> None"
    by (simp add: map_of_append_new del: map_of_append)
  with None show ?thesis
    by (simp add: record_entries_def Let_def length_update_present split: option.splits)
next
  case (Some old)
  then show ?thesis
    by (simp add: record_entries_def Let_def length_update_present split: option.splits)
qed

lemma join_giveaway_Joined:
  assumes "join_giveaway gid uid user_role_ids user_level gd = (Joined w, gd')"
  shows "\<exists>g. gd gid = Some g \<and> status g = Active \<and>
           gd' = gd(gid \<mapsto> g\<lparr>participants := record_entries g uid user_role_ids\<rparr>) \<and>
           w = recorded_weight g uid user_role_ids"
proof (cases "gd gid")
  case None
  with assms show ?thesis by (simp add: join_giveaway_def)
next
  case (Some g)
  have look: "map_of (record_entries g uid user_role_ids) uid =
      Some (recorded_weight g uid user_role_ids)"
    by (simp add: map_of_record_entries)
  from assms Some show ?thesis
    by (simp add: join_giveaway_def Let_def look split: if_splits)
qed

text \<open>
  Claim C5, as stated, fails twice. A user holding role 11 (2 entries) and role 12
  (5 entries) is recorded with 2 entries, the first matching rule in list order, where
  the highest matching rule gives 5. A user who joined with role 12 and joins again
  after losing it keeps the 5 entries, where recomputing from the current roles gives 1.
\<close>

theorem join_weight_counterexample:
  "fst (join_giveaway ''g'' 3 [11, 12] 0 [''g'' \<mapsto> rules_giveaway]) = Joined 2 \<and>
   spec_weight (extra_entry_roles rules_giveaway) [11, 12] = 5 \<and>
   fst (join_giveaway ''g'' 3 [12] 0 [''g'' \<mapsto> rules_giveaway]) = Joined 5 \<and>
   fst (join_giveaway ''g'' 3 [] 0
          (snd (join_giveaway ''g'' 3 [12] 0 [''g'' \<mapsto> rules_giveaway]))) = Joined 5 \<and>
   spec_weight (extra_entry_roles rules_giveaway) [] = 1"
  by (simp add: join_giveaway_def record_entries_def rules_giveaway_def level_blocked_def
        required_level_of_def spec_weight_def Let_def)

text \<open>
  Claim C5, amended. On a successful join the recorded weight is the entries value of
  the first rule of \<^verbatim>\<open>extra_entry_roles\<close>, in list order, whose role the user holds (not
  the sum of the matching rules); when no rule matches, a new participant is recorded
  with 1 entry and a participant who joined before keeps the stored entries. The join
  stores that weight for the user, overwriting and not accumulating: the user appears
  once, and no other participant changes.
\<close>

theorem join_weight_first_match:
  "join_giveaway gid uid user_role_ids user_level gd = (Joined w, gd') \<longrightarrow>
     (\<exists>g g'. gd gid = Some g \<and> gd' = gd(gid \<mapsto> g') \<and>
        g' = g\<lparr>participants := participants g'\<rparr> \<and>
        w = (case extra_entries (extra_entry_roles g) user_role_ids of
               Some entries \<Rightarrow> entries
             | None \<Rightarrow> (case map_of (participants g) uid of Some old \<Rightarrow> old | None \<Rightarrow> 1)) \<and>
        (extra_entries (extra_entry_roles g) user_role_ids = Some w \<longleftrightarrow>
           (\<exists>pre r post. extra_entry_roles g = pre @ (r, w) # post \<and> r \<in> set user_role_ids \<and>
              list_all (\<lambda>(r', e'). r' \<notin> set user_role_ids) pre)) \<and>
        (extra_entries (extra_entry_roles g) user_role_ids = None \<longleftrightarrow>
           list_all (\<lambda>(r, e). r \<notin> set user_role_ids) (extra_entry_roles g)) \<and>
        map_of (participants g') = (map_of (participants g))(uid \<mapsto> w) \<and>
        length (participants g') =
          (if map_of (participants g) uid = None then length (participants g) + 1
           else length (participants g)))"
proof
  assume "join_giveaway gid uid user_role_ids user_level gd = (Joined w, gd')"
  then obtain g where g: "gd gid = Some g"
    and gd': "gd' = gd(gid \<mapsto> g\<lparr>participants := record_entries g uid user_role_ids\<rparr>)"
    and w: "w = recorded_weight g uid user_role_ids"
    using join_giveaway_Joined by blast
  let ?g' = "g\<lparr>participants := record_entries g uid user_role_ids\<rparr>"
  have 1: "?g' = g\<lparr>participants := participants ?g'\<rparr>" by simp
  have 2: "w = (case extra_entries (extra_entry_roles g) user_role_ids of
               Some entries \<Rightarrow> entries
             | None \<Rightarrow> (case map_of (participants g) uid of Some old \<Rightarrow> old | None \<Rightarrow> 1))"
    using w by (simp add: recorded_weight_def)
  have 3: "map_of (participants ?g') = (map_of (participants g))(uid \<mapsto> w)"
    using w by (simp add: map_of_record_entries)
  have 4: "length (participants ?g') =
          (if map_of (participants g) uid = None then length (participants g) + 1
           else length (participants g))"
    by (simp add: length_record_entries)
  note 5 = extra_entries_Some[of "extra_entry_roles g" user_role_ids w]
  note 6 = extra_entries_None[of "extra_entry_roles g" user_role_ids]
  show "\<exists>g g'. gd gid = Some g \<and> gd' = gd(gid \<mapsto> g') \<and>
        g' = g\<lparr>participants := participants g'\<rparr> \<and>
        w = (case extra_entries (extra_entry_roles g) user_role_ids of
               Some entries \<Rightarrow> entries
             | None \<Rightarrow> (case map_of (participants g) uid of Some old \<Rightarrow> old | None \<Rightarrow> 1)) \<and>
        (extra_entries (extra_entry_roles g) user_role_ids = Some w \<longleftrightarrow>
           (\<exists>pre r post. extra_entry_roles g = pre @ (r, w) # post \<and> r \<in> set user_role_ids \<and>
              list_all (\<lambda>(r', e'). r' \<notin> set user_role_ids) pre)) \<and>
        (extra_entries (extra_entry_roles g) user_role_ids = None \<longleftrightarrow>
           list_all (\<lambda>(r, e). r \<notin> set user_role_ids) (extra_entry_roles g)) \<and>
        map_of (participants g') = (map_of (participants g))(uid \<mapsto> w) \<and>
        length (participants g') =
          (if map_of (participants g) uid = None then length (participants g) + 1
           else length (participants g))"
  proof (rule exI[of _ g], rule exI[of _ ?g'], intro conjI)
    show "gd gid = Some g" by (rule g)
    show "gd' = gd(gid \<mapsto> ?g')" by (rule gd')
    show "?g' = g\<lparr>participants := participants ?g'\<rparr>" by (rule 1)
    show "w = (case extra_entries (extra_entry_roles g) user_role_ids of
               Some entries \<Rightarrow> entries
             | None \<Rightarrow> (case map_of (participants g) uid of Some old \<Rightarrow> old | None \<Rightarrow> 1))"
      by (rule 2)
    show "(extra_entries (extra_entry_roles g) user_role_ids = Some w) =
           (\<exists>pre r post. extra_entry_roles g = pre @ (r, w) # post \<and> r \<in> set user_role_ids \<and>
              list_all (\<lambda>(r', e'). r' \<notin> set user_role_ids) pre)"
      by (rule 5)
    show "(extra_entries (extra_entry_roles g) user_role_ids = None) =
           list_all (\<lambda>(r, e). r \<notin> set user_role_ids) (extra_entry_roles g)"
      by (rule 6)
    show "map_of (participants ?g') = (map_of (participants g))(uid \<mapsto> w)" by (rule 3)
    show "length (participants ?g') =
          (if map_of (participants g) uid = None then length (participants g) + 1
           else length (participants g))"
      by (rule 4)
  qed
qed

theorem join_weight_first_match_witness:
  "join_giveaway ''g'' 3 [12, 11] 0 [''g'' \<mapsto> rules_giveaway] =
     (Joined 2, [''g'' \<mapsto> rules_giveaway\<lparr>participants := [(3, 2)]\<rparr>]) \<and>
   extra_entries (extra_entry_roles rules_giveaway) [12, 11] = Some 2 \<and>
   extra_entry_roles rules_giveaway = [] @ (11, 2) # [(12, 5)]"
  using join_weight_first_match[where gid = "''g''" and uid = 3 and user_role_ids = "[12, 11]"
          and user_level = 0 and gd = "[''g'' \<mapsto> rules_giveaway]" and w = 2
          and gd' = "[''g'' \<mapsto> rules_giveaway\<lparr>participants := [(3, 2)]\<rparr>]"]
  by (simp add: join_giveaway_def record_entries_def rules_giveaway_def level_blocked_def
        required_level_of_def Let_def)

subsection \<open>The draw\<close>

lemma remove_duplicates_props:
  "distinct acc \<Longrightarrow> seen = set acc \<Longrightarrow>
     distinct (remove_duplicates ws acc seen) \<and>
     set (remove_duplicates ws acc seen) = set acc \<union> set ws \<and>
     length (remove_duplicates ws acc seen) \<le> length acc + length ws"
proof (induction ws arbitrary: acc seen)
  case Nil
  then show ?case by simp
next
  case (Cons w ws)
  show ?case
  proof (cases "w \<in> seen")
    case True
    with Cons.IH[of acc seen] Cons.prems show ?thesis by auto
  next
    case False
    with Cons.prems have "distinct (acc @ [w])" "insert w seen = set (acc @ [w])" by auto
    from Cons.IH[OF this] False show ?thesis by auto
  qed
qed

lemma set_weighted_pool: "set (weighted_pool ps) \<subseteq> fst ` set ps"
  by (induction ps) (auto simp: weighted_pool_def)

text \<open>
  What does hold of the draw: for every possible choice of \<^verbatim>\<open>random.sample\<close>, the
  announced winners are distinct participants, at most
  \<^verbatim>\<open>min(winners, len(participants))\<close> of them, and they are stored as the winners list.
\<close>

lemma end_giveaway_winners:
  assumes ann: "end_giveaway gid ch picks gd = (Announced ws, gd')"
    and g: "gd gid = Some g"
    and picks: "valid_picks (length (weighted_pool (participants g)))
                  (min (winners g) (int (length (participants g)))) picks"
  shows "distinct ws \<and> set ws \<subseteq> fst ` set (participants g) \<and>
         int (length ws) \<le> min (winners g) (int (length (participants g))) \<and>
         gd' gid = Some (g\<lparr>status := Ended, winners_list := Some ws\<rparr>)"
proof -
  let ?pool = "weighted_pool (participants g)"
  let ?k = "min (winners g) (int (length (participants g)))"
  let ?drawn = "map (\<lambda>i. ?pool ! i) picks"
  from ann g have ws: "ws = remove_duplicates ?drawn [] {}"
    and gd': "gd' gid = Some (g\<lparr>status := Ended, winners_list := Some ws\<rparr>)"
    by (auto simp: end_giveaway_def random_sample_def Let_def split: if_splits)
  have props: "distinct ws \<and> set ws = set ?drawn \<and> length ws \<le> length ?drawn"
    using remove_duplicates_props[of "[]" "{}" ?drawn] ws by simp
  from picks have "set ?drawn \<subseteq> set ?pool"
    by (auto simp: valid_picks_def list_all_iff)
  with set_weighted_pool[of "participants g"] have sub: "set ?drawn \<subseteq> fst ` set (participants g)"
    by blast
  from picks have "int (length ?drawn) = ?k"
    by (simp add: valid_picks_def)
  with props sub gd' show ?thesis by auto
qed

lemma draw_winners_props:
  "n \<le> card (set pool) \<Longrightarrow> distinct ws \<Longrightarrow> set ws \<inter> set pool = {} \<Longrightarrow>
     distinct (draw_winners n ch pool ws) \<and>
     length (draw_winners n ch pool ws) = length ws + n \<and>
     set (draw_winners n ch pool ws) \<subseteq> set ws \<union> set pool"
proof (induction n arbitrary: ch pool ws)
  case 0
  then show ?case by simp
next
  case (Suc n)
  from Suc.prems(1) have ne: "pool \<noteq> []" by auto
  define w where "w = pool ! (ch 0 mod length pool)"
  define pool' where "pool' = filter (\<lambda>p. p \<noteq> w) pool"
  from ne have w_in: "w \<in> set pool" by (simp add: w_def)
  with Suc.prems(3) have w_new: "w \<notin> set ws" by auto
  have set': "set pool' = set pool - {w}" by (auto simp: pool'_def)
  with w_in have "card (set pool') = card (set pool) - 1" by simp
  with Suc.prems(1) have card': "n \<le> card (set pool')" by simp
  from Suc.prems(2) w_new have dist': "distinct (ws @ [w])" by simp
  from Suc.prems(3) set' have disj': "set (ws @ [w]) \<inter> set pool' = {}" by auto
  have step: "draw_winners (Suc n) ch pool ws =
      draw_winners n (\<lambda>i. ch (Suc i)) pool' (ws @ [w])"
    using ne w_new by (simp add: Let_def w_def[symmetric] pool'_def[symmetric])
  note ih = Suc.IH[OF card' dist' disj', of "\<lambda>i. ch (Suc i)"]
  from ih have d: "distinct (draw_winners (Suc n) ch pool ws)"
    unfolding step by blast
  from ih have l: "length (draw_winners (Suc n) ch pool ws) = length ws + Suc n"
    unfolding step by simp
  from ih have "set (draw_winners (Suc n) ch pool ws) \<subseteq> set (ws @ [w]) \<union> set pool'"
    unfolding step by blast
  with set' w_in have s: "set (draw_winners (Suc n) ch pool ws) \<subseteq> set ws \<union> set pool"
    by auto
  from d l s show ?case by blast
qed

lemma set_weighted_pool_positive:
  "list_all (\<lambda>(u, e). 1 \<le> e) ps \<Longrightarrow> set (weighted_pool ps) = fst ` set ps"
  by (induction ps) (auto simp: weighted_pool_def)

text \<open>
  The earlier definition does select \<open>k\<close> winners: when the participants' keys are
  distinct and every participant has at least one entry, every sequence of random choices
  yields distinct participants, exactly \<^verbatim>\<open>min(winners, len(participants))\<close> of them.
\<close>

lemma select_winners_earlier_count:
  assumes keys: "distinct (map fst (participants g))"
    and entries: "list_all (\<lambda>(u, e). 1 \<le> e) (participants g)"
    and k: "0 \<le> winners g"
  shows "distinct (select_winners_earlier g ch) \<and>
         set (select_winners_earlier g ch) \<subseteq> fst ` set (participants g) \<and>
         int (length (select_winners_earlier g ch)) =
           min (winners g) (int (length (participants g)))"
proof -
  define pool where "pool = weighted_pool (participants g)"
  define n where "n = nat (min (winners g) (int (length (participants g))))"
  have sel: "select_winners_earlier g ch = draw_winners n ch pool []"
    using keys
    by (simp add: select_winners_earlier_def Let_def distinct_remdups_id pool_def n_def)
  have sp: "set pool = fst ` set (participants g)"
    unfolding pool_def using entries by (rule set_weighted_pool_positive)
  have "card (set (map fst (participants g))) = length (map fst (participants g))"
    using keys by (rule distinct_card)
  then have "card (fst ` set (participants g)) = length (participants g)" by simp
  with sp have "n \<le> card (set pool)" by (simp add: n_def)
  from draw_winners_props[OF this, of "[]" ch]
  have d: "distinct (draw_winners n ch pool [])"
    and l: "length (draw_winners n ch pool []) = n"
    and s: "set (draw_winners n ch pool []) \<subseteq> set pool" by simp_all
  from k have "int n = min (winners g) (int (length (participants g)))"
    by (simp add: n_def)
  with d l s sp show ?thesis unfolding sel by simp
qed

lemma select_winners_earlier_two_entries:
  "select_winners_earlier two_entries_giveaway (\<lambda>i. 0) = [1, 2]"
  by code_simp

text \<open>
  Claim C1 at a concrete giveaway: users 1 and 2 take part, user 1 with two entries, and
  two winners are to be drawn, so \<open>k = 2\<close>. When \<^verbatim>\<open>random.sample\<close> picks positions 0
  and 1 of the pool \<open>[1, 1, 2]\<close>, both draws are user 1, the duplicate is removed and a
  single winner is announced.
\<close>

theorem end_giveaway_fewer_winners:
  "valid_picks (length (weighted_pool (participants two_entries_giveaway)))
     (min (winners two_entries_giveaway) (int (length (participants two_entries_giveaway))))
     [0, 1] \<and>
   min (winners two_entries_giveaway) (int (length (participants two_entries_giveaway))) = 2 \<and>
   end_giveaway ''g'' True [0, 1] [''g'' \<mapsto> two_entries_giveaway] =
     (Announced [1],
      [''g'' \<mapsto> two_entries_giveaway\<lparr>status := Ended, winners_list := Some [1]\<rparr>])"
  by (simp add: end_giveaway_def two_entries_giveaway_def weighted_pool_def
        random_sample_def valid_picks_def Let_def eval_nat_numeral)

section \<open>Invite tracking: properties\<close>

subsection \<open>The used invite is the first increased one\<close>



subsection \<open>What the join handler leaves alone\<close>

lemma cache_invites_members: "members (snd (cache_invites invs d)) = members d"
  by (induction invs arbitrary: d) (auto split: option.splits)

lemma update_cached_uses_members: "members (snd (update_cached_uses u d)) = members d"
  by (auto simp: update_cached_uses_def split: option.splits)

lemma attribute_join_members_exist:
  assumes "members d = Some ms"
  shows "attribute_join m now u i ok d =
           (case invites d of
              None \<Rightarrow> (Some KeyError, d)
            | Some cached \<Rightarrow>
                (case cached (code u) of
                   None \<Rightarrow> (Some KeyError, d)
                 | Some e \<Rightarrow> (Some UnboundLocalError,
                     d\<lparr>invites := Some (cached(code u \<mapsto> e\<lparr>cached_uses := uses u\<rparr>))\<rparr>)))"
  using assms
  by (auto simp: attribute_join_def update_cached_uses_def then_step_def split: option.splits)

lemma then_step_error: "then_step (Some e, s) f = (Some e, s)"
  by (simp add: then_step_def)

lemma then_step_ok: "then_step (None, s) f = f s"
  by (simp add: then_step_def)

lemma handler_members_exist:
  assumes "members d = Some ms"
  shows "members (snd (handle_member_join_invite_tracking m now invs ok d)) = Some ms"
  using assms
  by (auto simp: handle_member_join_invite_tracking_def attribute_join_members_exist
        cache_invites_members then_step_error split: option.splits)


subsection \<open>Which invite a join is attributed to\<close>




subsection \<open>The unassigned \<^verbatim>\<open>inviter_id\<close>\<close>

text \<open>
  The state after the first attribution, member 7 having joined through invite \<open>a\<close>.
\<close>

lemma attributed_once_eq:
  "attributed_once =
     \<lparr>invites = Some [''a'' \<mapsto> \<lparr>cached_uses = 1, cached_inviter_id = Some 100,
                                cached_channel_id = None, cached_created_at = None\<rparr>],
      members = Some [100 \<mapsto> \<lparr>total_invites = Some 1, left_invites = Some 0,
                               recent_invites = Some [(7, 1000)], invited_by = None,
                               invite_code = None, join_timestamp = None\<rparr>,
                      7 \<mapsto> invitee_entry 100 ''a'' 1000]\<rparr>"
  by (simp add: attributed_once_def handle_member_join_invite_tracking_def attribute_join_def
        update_cached_uses_def count_invite_def record_invitee_def then_step_def
        fresh_cache_def invite_a_def increased_def cached_uses_of_def
        new_inviter_entry_def empty_entry_def cache_entry_def Let_def)

text \<open>
  Claim C10, as stated, fails when the used invite's code is not in the cache. After the
  first attribution the members map exists; member 8 then joins through invite \<open>b\<close>,
  created since the cache was last refreshed. The used invite and its inviter are found,
  but the handler is aborted by the KeyError of the cache update, one statement before
  \<^verbatim>\<open>inviter_id\<close> is read, and nothing is written.
\<close>

theorem unbound_inviter_id_counterexample:
  "members attributed_once =
     Some [100 \<mapsto> \<lparr>total_invites = Some 1, left_invites = Some 0,
                     recent_invites = Some [(7, 1000)], invited_by = None,
                     invite_code = None, join_timestamp = None\<rparr>,
           7 \<mapsto> invitee_entry 100 ''a'' 1000] \<and>
   find_used_invite attributed_once [invite_a 1, invite_b 1] = Some (invite_b 1) \<and>
   inviter (invite_b 1) = Some 200 \<and>
   handle_member_join_invite_tracking 8 2000 [invite_a 1, invite_b 1] True attributed_once =
     (Some KeyError, attributed_once)"
  by (simp add: attributed_once_eq handle_member_join_invite_tracking_def attribute_join_def
        update_cached_uses_def then_step_def invite_a_def invite_b_def increased_def
        cached_uses_of_def)

text \<open>
  Claim C10, amended. When the members map exists and a used invite with an inviter is
  found, the handler is aborted by an exception that it catches and logs: by the
  UnboundLocalError of reading \<^verbatim>\<open>inviter_id\<close> when the used invite's code is cached,
  after only that code's cached use count was updated; by a KeyError of that update when
  the code, or the whole cache, is missing. In both cases no \<^verbatim>\<open>total_invites\<close> is
  incremented, no invitee record is written (the members map is unchanged) and the loop
  that refreshes the cache is not reached.
\<close>

theorem unbound_inviter_id_aborts:
  "members d = Some ms \<and> find_used_invite d current_invites = Some u \<and>
   inviter u = Some inviter_user \<longrightarrow>
     handle_member_join_invite_tracking member_id now current_invites platform_ok d =
       (case invites d of
          None \<Rightarrow> (Some KeyError, d)
        | Some cached \<Rightarrow>
            (case cached (code u) of
               None \<Rightarrow> (Some KeyError, d)
             | Some e \<Rightarrow> (Some UnboundLocalError,
                 d\<lparr>invites := Some (cached(code u \<mapsto> e\<lparr>cached_uses := uses u\<rparr>))\<rparr>))) \<and>
     members (snd (handle_member_join_invite_tracking member_id now current_invites
                     platform_ok d)) = Some ms \<and>
     total_of (snd (handle_member_join_invite_tracking member_id now current_invites
                     platform_ok d)) inviter_user = total_of d inviter_user"
proof
  assume a: "members d = Some ms \<and> find_used_invite d current_invites = Some u \<and>
   inviter u = Some inviter_user"
  let ?r = "handle_member_join_invite_tracking member_id now current_invites platform_ok d"
  from a have run: "?r =
       (case invites d of
          None \<Rightarrow> (Some KeyError, d)
        | Some cached \<Rightarrow>
            (case cached (code u) of
               None \<Rightarrow> (Some KeyError, d)
             | Some e \<Rightarrow> (Some UnboundLocalError,
                 d\<lparr>invites := Some (cached(code u \<mapsto> e\<lparr>cached_uses := uses u\<rparr>))\<rparr>)))"
    by (auto simp: handle_member_join_invite_tracking_def attribute_join_members_exist
          then_step_error split: option.splits)
  from a have mem: "members (snd ?r) = Some ms"
    by (simp add: handler_members_exist)
  with a have tot: "total_of (snd ?r) inviter_user = total_of d inviter_user"
    by (simp add: total_of_def)
  from run mem tot
  show "?r =
       (case invites d of
          None \<Rightarrow> (Some KeyError, d)
        | Some cached \<Rightarrow>
            (case cached (code u) of
               None \<Rightarrow> (Some KeyError, d)
             | Some e \<Rightarrow> (Some UnboundLocalError,
                 d\<lparr>invites := Some (cached(code u \<mapsto> e\<lparr>cached_uses := uses u\<rparr>))\<rparr>))) \<and>
     members (snd ?r) = Some ms \<and>
     total_of (snd ?r) inviter_user = total_of d inviter_user"
    by (intro conjI)
qed

theorem unbound_inviter_id_aborts_witness:
  "members attributed_once =
     Some [100 \<mapsto> \<lparr>total_invites = Some 1, left_invites = Some 0,
                     recent_invites = Some [(7, 1000)], invited_by = None,
                     invite_code = None, join_timestamp = None\<rparr>,
           7 \<mapsto> invitee_entry 100 ''a'' 1000] \<and>
   find_used_invite attributed_once [invite_a 2] = Some (invite_a 2) \<and>
   inviter (invite_a 2) = Some 100 \<and>
   handle_member_join_invite_tracking 8 2000 [invite_a 2] True attributed_once =
     (Some UnboundLocalError,
      attributed_once\<lparr>invites := Some [''a'' \<mapsto> \<lparr>cached_uses = 2,
         cached_inviter_id = Some 100, cached_channel_id = None,
         cached_created_at = None\<rparr>]\<rparr>) \<and>
   total_of (snd (handle_member_join_invite_tracking 8 2000 [invite_a 2] True
                    attributed_once)) 100 = 1"
  using unbound_inviter_id_aborts[where d = attributed_once and current_invites = "[invite_a 2]"
          and u = "invite_a 2" and inviter_user = 100 and member_id = 8 and now = 2000
          and platform_ok = True
          and ms = "[100 \<mapsto> \<lparr>total_invites = Some 1, left_invites = Some 0,
                     recent_invites = Some [(7, 1000)], invited_by = None,
                     invite_code = None, join_timestamp = None\<rparr>,
                   7 \<mapsto> invitee_entry 100 ''a'' 1000]"]
  by (simp add: attributed_once_eq invite_a_def increased_def cached_uses_of_def total_of_def)

subsection \<open>The invitee's record\<close>

text \<open>
  An existing entry keeps its invitee's fields through every join and leave: the leave
  handler writes \<^verbatim>\<open>left_invites\<close> only, and the join handler writes nothing to a
  members map that exists, every attribution being aborted there.
\<close>

lemma leave_invitee_fields:
  "invitee_fields (handle_member_leave_invite_tracking x d) m = invitee_fields d m"
  by (auto simp: handle_member_leave_invite_tracking_def invitee_fields_def Let_def
        split: option.splits)

lemma join_invitee_fields:
  assumes "invitee_fields d m = Some f"
  shows "invitee_fields (snd (handle_member_join_invite_tracking x now invs ok d)) m = Some f"
proof -
  from assms obtain ms where ms: "members d = Some ms"
    by (auto simp: invitee_fields_def split: option.splits)
  then have "members (snd (handle_member_join_invite_tracking x now invs ok d)) = members d"
    by (simp add: handler_members_exist)
  with assms show ?thesis by (simp add: invitee_fields_def)
qed

lemma apply_event_invitee_fields:
  "invitee_fields d m = Some f \<Longrightarrow> invitee_fields (apply_event ev d) m = Some f"
  by (cases ev) (simp_all add: join_invitee_fields leave_invitee_fields)

lemma run_events_invitee_fields:
  "invitee_fields d m = Some f \<Longrightarrow> invitee_fields (run_events evs d) m = Some f"
  by (induction evs arbitrary: d) (simp_all add: apply_event_invitee_fields)

text \<open>
  The one attribution that completes is the one that finds no members map: it records the
  inviter, the invite's code and the time for the joining member, unless the member is
  the inviter, whose entry has inviter statistics.
\<close>

lemma count_invite_empty:
  "count_invite i m now Map.empty =
     (None, [i \<mapsto> \<lparr>total_invites = Some 1, left_invites = Some 0,
                     recent_invites = Some [(m, now)], invited_by = None,
                     invite_code = None, join_timestamp = None\<rparr>])"
  by (simp add: count_invite_def new_inviter_entry_def Let_def)

lemma first_attribution_members:
  assumes "members d = None" and "find_used_invite d invs = Some u"
    and "inviter u = Some i" and "invites d = Some cached" and "cached (code u) = Some ce"
  shows "members (snd (handle_member_join_invite_tracking m now invs ok d)) =
           Some (record_invitee m i (code u) now
              [i \<mapsto> \<lparr>total_invites = Some 1, left_invites = Some 0,
                       recent_invites = Some [(m, now)], invited_by = None,
                       invite_code = None, join_timestamp = None\<rparr>])"
  using assms
  by (cases ok)
     (simp_all add: handle_member_join_invite_tracking_def attribute_join_def
        update_cached_uses_def count_invite_empty then_step_def Let_def
        cache_invites_members)

lemma first_attribution_fields:
  assumes "members d = None" and "find_used_invite d invs = Some u"
    and "inviter u = Some i" and "invites d = Some cached" and "cached (code u) = Some ce"
  shows "invitee_fields (snd (handle_member_join_invite_tracking m now invs ok d)) m =
           Some (if m = i then (None, None, None) else (Some i, Some (code u), Some now))"
  using first_attribution_members[OF assms, of m now ok]
  by (cases "m = i")
     (simp_all add: invitee_fields_def record_invitee_def invitee_entry_def empty_entry_def
        Let_def)

lemma leave_no_entry:
  assumes "invitee_fields d m = None" and "members d \<noteq> None"
  shows "invitee_fields (handle_member_leave_invite_tracking x d) m = None \<and>
         members (handle_member_leave_invite_tracking x d) \<noteq> None"
  using assms
  by (auto simp: handle_member_leave_invite_tracking_def invitee_fields_def Let_def
        split: option.splits)

lemma join_no_entry:
  assumes "invitee_fields d m = None" and "members d \<noteq> None"
  shows "invitee_fields (snd (handle_member_join_invite_tracking x now invs ok d)) m = None \<and>
         members (snd (handle_member_join_invite_tracking x now invs ok d)) \<noteq> None"
proof -
  from assms(2) obtain ms where ms: "members d = Some ms" by auto
  then have "members (snd (handle_member_join_invite_tracking x now invs ok d)) = Some ms"
    by (rule handler_members_exist)
  with assms(1) ms show ?thesis by (simp add: invitee_fields_def)
qed

lemma apply_event_no_entry:
  assumes "invitee_fields d m = None" and "members d \<noteq> None"
  shows "invitee_fields (apply_event ev d) m = None \<and> members (apply_event ev d) \<noteq> None"
  using assms by (cases ev) (simp_all add: join_no_entry leave_no_entry)

text \<open>
  Once the members map exists, a member without an entry never gets one: no sequence of
  joins and leaves writes the invitee's fields.
\<close>

lemma run_events_no_entry:
  "invitee_fields d m = None \<Longrightarrow> members d \<noteq> None \<Longrightarrow>
     invitee_fields (run_events evs d) m = None"
proof (induction evs arbitrary: d)
  case Nil
  then show ?case by simp
next
  case (Cons ev evs)
  from apply_event_no_entry[OF Cons.prems, of ev]
  have "invitee_fields (apply_event ev d) m = None" and "members (apply_event ev d) \<noteq> None"
    by simp_all
  from Cons.IH[OF this] show ?case by simp
qed

text \<open>
  The step that records the invitee guards on \<^verbatim>\<open>total_invites\<close> alone: reached with
  an entry that has no inviter statistics, it replaces the entry, an invitee's earlier
  record included.
\<close>

lemma record_invitee_replaces:
  assumes "ms m = Some e" and "total_invites e = None"
  shows "record_invitee m i c now ms m = Some (invitee_entry i c now)"
  using assms by (simp add: record_invitee_def Let_def)

text \<open>
  Claim C8 at a concrete sequence. Member 7 has joined through invite \<open>a\<close> of user 100,
  the first attribution, so the members map exists. Member 8 then joins through the same
  invite, whose use count rose from 1 to 2: the used invite and its inviter are found,
  but the handler is aborted by the unassigned \<^verbatim>\<open>inviter_id\<close> before the invitee is
  recorded. Member 8 has no \<^verbatim>\<open>invited_by\<close>, \<^verbatim>\<open>invite_code\<close> or \<^verbatim>\<open>join_timestamp\<close>
  after this join, nor after leaving and joining once more.
\<close>

theorem invitee_fields_never_written:
  "find_used_invite attributed_once [invite_a 2] = Some (invite_a 2) \<and>
   inviter (invite_a 2) = Some 100 \<and>
   fst (handle_member_join_invite_tracking 8 2000 [invite_a 2] True attributed_once) =
     Some UnboundLocalError \<and>
   invitee_fields
     (snd (handle_member_join_invite_tracking 8 2000 [invite_a 2] True attributed_once)) 8 =
     None \<and>
   invitee_fields
     (run_events [MemberJoin 8 2000 [invite_a 2] True, MemberLeave 8,
                  MemberJoin 8 3000 [invite_a 3] True] attributed_once) 8 = None \<and>
   invitee_fields attributed_once 7 = Some (Some 100, Some ''a'', Some 1000)"
proof -
  have found: "find_used_invite attributed_once [invite_a 2] = Some (invite_a 2)"
    by (simp add: attributed_once_eq invite_a_def increased_def cached_uses_of_def)
  have inv: "inviter (invite_a 2) = Some 100"
    by (simp add: invite_a_def)
  have err: "fst (handle_member_join_invite_tracking 8 2000 [invite_a 2] True attributed_once) =
     Some UnboundLocalError"
    by (simp add: attributed_once_eq handle_member_join_invite_tracking_def
          attribute_join_def update_cached_uses_def then_step_def invite_a_def
          increased_def cached_uses_of_def)
  have none: "invitee_fields attributed_once 8 = None"
    by (simp add: attributed_once_eq invitee_fields_def)
  have mem: "members attributed_once \<noteq> None"
    by (simp add: attributed_once_eq)
  have one: "invitee_fields
     (snd (handle_member_join_invite_tracking 8 2000 [invite_a 2] True attributed_once)) 8 =
     None"
    using join_no_entry[OF none mem] by simp
  have later: "invitee_fields
     (run_events [MemberJoin 8 2000 [invite_a 2] True, MemberLeave 8,
                  MemberJoin 8 3000 [invite_a 3] True] attributed_once) 8 = None"
    using none mem by (rule run_events_no_entry)
  have first: "invitee_fields attributed_once 7 = Some (Some 100, Some ''a'', Some 1000)"
    by (simp add: attributed_once_eq invitee_fields_def invitee_entry_def)
  from found inv err one later first show ?thesis by (intro conjI)
qed

subsection \<open>Leaves\<close>

text \<open>
  What does hold of the leave handler: for a member whose recorded inviter has an entry,
  exactly that inviter's \<^verbatim>\<open>left_invites\<close> grows by one and no total changes; for a
  member without a recorded inviter nothing changes.
\<close>

lemma leave_counts_for_inviter:
  assumes "members d = Some ms" and "ms m = Some e" and "invited_by e = Some i"
    and "i \<noteq> 0" and "ms i = Some ie"
  shows "left_of (handle_member_leave_invite_tracking m d) i = left_of d i + 1"
    and "u \<noteq> i \<Longrightarrow> left_of (handle_member_leave_invite_tracking m d) u = left_of d u"
    and "total_of (handle_member_leave_invite_tracking m d) u = total_of d u"
  using assms
  by (auto simp: handle_member_leave_invite_tracking_def left_of_def total_of_def Let_def
        split: option.splits)

lemma leave_without_inviter:
  assumes "invitee_fields d m = None \<or> (\<exists>c t. invitee_fields d m = Some (None, c, t))"
  shows "handle_member_leave_invite_tracking m d = d"
  using assms
  by (auto simp: handle_member_leave_invite_tracking_def invitee_fields_def empty_entry_def
        Let_def split: option.splits)

text \<open>
  Claim C9 at a concrete sequence: member 7 joins through invite \<open>a\<close> of user 100,
  leaves, joins again through the same invite and leaves again. The second join is
  aborted by the unassigned \<^verbatim>\<open>inviter_id\<close> before \<^verbatim>\<open>total_invites\<close> is incremented,
  while both leaves are counted: user 100 ends with 1 total and 2 left invites, and the
  current invites shown are \<open>-1\<close>.
\<close>

theorem leave_after_aborted_rejoin:
  "fst (handle_member_join_invite_tracking 7 2000 [invite_a 2] True
         (run_events [MemberJoin 7 1000 [invite_a 1] True, MemberLeave 7] fresh_cache)) =
     Some UnboundLocalError \<and>
   total_of (run_events [MemberJoin 7 1000 [invite_a 1] True, MemberLeave 7,
                         MemberJoin 7 2000 [invite_a 2] True, MemberLeave 7] fresh_cache) 100 = 1 \<and>
   left_of (run_events [MemberJoin 7 1000 [invite_a 1] True, MemberLeave 7,
                        MemberJoin 7 2000 [invite_a 2] True, MemberLeave 7] fresh_cache) 100 = 2 \<and>
   current_invites_of (run_events [MemberJoin 7 1000 [invite_a 1] True, MemberLeave 7,
                        MemberJoin 7 2000 [invite_a 2] True, MemberLeave 7] fresh_cache) 100 = - 1"
  by (simp add: handle_member_join_invite_tracking_def attribute_join_def
        update_cached_uses_def count_invite_def record_invitee_def then_step_def
        handle_member_leave_invite_tracking_def
        fresh_cache_def invite_a_def increased_def cached_uses_of_def total_of_def left_of_def
        current_invites_of_def invitee_entry_def
        new_inviter_entry_def empty_entry_def cache_entry_def Let_def)

end
